theory Spec2Isabelle
  imports Main
begin

section \<open>Runtime failures\<close>

text \<open>
  The Go code has no error results; what can go wrong is a run-time panic.  Each panic the
  source can reach is a constructor, and a function that may panic returns
  \<open>panic + 'a\<close> with \<open>Inl\<close> for the panic.
\<close>

datatype panic =
    SliceBoundsOutOfRange
  | NilPointerDereference
  | ReflectZeroValue
  | ReflectUnexportedField
  | ReflectKindMismatch

abbreviation ESC :: char where
  "ESC \<equiv> CHR 0x1B"

abbreviation NL :: char where
  "NL \<equiv> CHR 0x0A"

abbreviation DQ :: char where
  "DQ \<equiv> CHR 0x22"

section \<open>The pieces of package strings that rich.go calls\<close>

text \<open>
  A Go string is a sequence of bytes, here a \<open>char list\<close>.  The separators the source
  passes to Split and SplitN are the one-byte strings \<open>[\<close> and \<open>]\<close>, so both take the
  separator as a byte.  \<open>Split\<close> of the empty string is the list holding one empty string.
\<close>

fun Split :: "string \<Rightarrow> char \<Rightarrow> string list" where
  "Split [] sep = [[]]"
| "Split (c # cs) sep =
     (if c = sep then [] # Split cs sep
      else (c # hd (Split cs sep)) # tl (Split cs sep))"

text \<open>\<open>SplitN s sep 2\<close>: cut at the first separator, or the whole string alone.\<close>

definition SplitN2 :: "string \<Rightarrow> char \<Rightarrow> string list" where
  "SplitN2 s sep =
     (if sep \<in> set s
      then [takeWhile (\<lambda>c. c \<noteq> sep) s, tl (dropWhile (\<lambda>c. c \<noteq> sep) s)]
      else [s])"

fun Join :: "string list \<Rightarrow> string \<Rightarrow> string" where
  "Join [] sep = []"
| "Join [x] sep = x"
| "Join (x # y # ys) sep = x @ sep @ Join (y # ys) sep"

definition HasPrefix :: "string \<Rightarrow> string \<Rightarrow> bool" where
  "HasPrefix s p = (take (length p) s = p)"

text \<open>\<open>Trim\<close> with an ASCII cutset works on bytes: from the right, then from the left.\<close>

definition Trim :: "string \<Rightarrow> string \<Rightarrow> string" where
  "Trim s cutset =
     dropWhile (\<lambda>c. c \<in> set cutset) (rev (dropWhile (\<lambda>c. c \<in> set cutset) (rev s)))"

definition byte :: "char \<Rightarrow> nat" where
  "byte c = of_char c"

definition isASCII :: "string \<Rightarrow> bool" where
  "isASCII s = list_all (\<lambda>c. byte c < 128) s"

definition asciiLower :: "char \<Rightarrow> char" where
  "asciiLower c = (if 65 \<le> byte c \<and> byte c \<le> 90 then char_of (byte c + 32) else c)"

text \<open>
  \<open>ToLower\<close> lowers A-Z bytewise when every byte is ASCII.  Otherwise Go maps
  \<open>unicode.ToLower\<close> over the decoded runes; the Unicode case tables are not part of
  this repository, so that branch is the parameter \<open>ulower\<close>.
\<close>

definition ToLower :: "(string \<Rightarrow> string) \<Rightarrow> string \<Rightarrow> string" where
  "ToLower ulower s = (if isASCII s then map asciiLower s else ulower s)"

text \<open>
  \<open>Fields\<close> splits around runs of white space.  For an ASCII string that is tab, line
  feed, vertical tab, form feed, carriage return and space; otherwise it is
  \<open>unicode.IsSpace\<close> on the decoded runes, which adds U+0085, U+00A0, U+1680,
  U+2000..U+200A, U+2028, U+2029, U+202F, U+205F and U+3000.  Their UTF-8 encodings begin
  with a lead byte, which the decoder never takes as part of an earlier rune, so a white
  space rune is present exactly where its bytes are.  \<open>spaceWidth\<close> is the number of
  bytes of the white space rune a string begins with, 0 when it begins with none.
\<close>

definition spaceWidth :: "string \<Rightarrow> nat" where
  "spaceWidth s =
     (case map byte (take 3 s) of
        [] \<Rightarrow> 0
      | a # r \<Rightarrow>
          if a \<in> {9, 10, 11, 12, 13, 32} then 1
          else (case r of
                  [] \<Rightarrow> 0
                | b # r' \<Rightarrow>
                    if a = 0xC2 \<and> (b = 0x85 \<or> b = 0xA0) then 2
                    else (case r' of
                            [] \<Rightarrow> 0
                          | c # _ \<Rightarrow>
                              if a = 0xE1 \<and> b = 0x9A \<and> c = 0x80 then 3
                              else if a = 0xE2 \<and> b = 0x80
                                      \<and> ((0x80 \<le> c \<and> c \<le> 0x8A) \<or> c = 0xA8 \<or> c = 0xA9 \<or> c = 0xAF)
                                then 3
                              else if a = 0xE2 \<and> b = 0x81 \<and> c = 0x9F then 3
                              else if a = 0xE3 \<and> b = 0x80 \<and> c = 0x80 then 3
                              else 0)))"

text \<open>
  The scan: \<open>skip\<close> counts the bytes of a white space rune still to pass over, \<open>cur\<close>
  is the field read so far.
\<close>

fun fieldsScan :: "nat \<Rightarrow> string \<Rightarrow> string \<Rightarrow> string list" where
  "fieldsScan skip cur [] = (if cur = [] then [] else [cur])"
| "fieldsScan (Suc skip) cur (c # cs) = fieldsScan skip cur cs"
| "fieldsScan 0 cur (c # cs) =
     (if spaceWidth (c # cs) = 0 then fieldsScan 0 (cur @ [c]) cs
      else (if cur = [] then [] else [cur]) @ fieldsScan (spaceWidth (c # cs) - 1) [] cs)"

definition Fields :: "string \<Rightarrow> string list" where
  "Fields s = fieldsScan 0 [] s"

text \<open>
  A slice expression \<open>s[:n]\<close> panics unless \<open>0 \<le> n \<le> cap(s)\<close>; for the style stack the
  source only ever asks for \<open>n = len(s) - 1\<close>, so the length stands for the capacity.
\<close>

definition sliceTo :: "'a list \<Rightarrow> int \<Rightarrow> panic + 'a list" where
  "sliceTo s n =
     (if 0 \<le> n \<and> n \<le> int (length s) then Inr (take (nat n) s)
      else Inl SliceBoundsOutOfRange)"

section \<open>The style registry\<close>

record Style =
  Name :: string
  Code :: string
  IsColor :: bool

definition styles :: "Style list" where
  "styles =
    [\<lparr>Name = ''reset'', Code = ''0'', IsColor = False\<rparr>,
     \<lparr>Name = ''unstyle'', Code = ''22'', IsColor = False\<rparr>,
     \<lparr>Name = ''b'', Code = ''1'', IsColor = False\<rparr>,
     \<lparr>Name = ''i'', Code = ''3'', IsColor = False\<rparr>,
     \<lparr>Name = ''u'', Code = ''4'', IsColor = False\<rparr>,
     \<lparr>Name = ''s'', Code = ''9'', IsColor = False\<rparr>,
     \<lparr>Name = ''blink'', Code = ''5'', IsColor = False\<rparr>,
     \<lparr>Name = ''x'', Code = ''7'', IsColor = False\<rparr>,
     \<lparr>Name = ''white'', Code = ''97'', IsColor = True\<rparr>,
     \<lparr>Name = ''gray'', Code = ''37'', IsColor = True\<rparr>,
     \<lparr>Name = ''red'', Code = ''31'', IsColor = True\<rparr>,
     \<lparr>Name = ''green'', Code = ''32'', IsColor = True\<rparr>,
     \<lparr>Name = ''cyan'', Code = ''36'', IsColor = True\<rparr>,
     \<lparr>Name = ''blue'', Code = ''34'', IsColor = True\<rparr>,
     \<lparr>Name = ''yellow'', Code = ''33'', IsColor = True\<rparr>]"

text \<open>\<open>init\<close>: every style is stored under its name, a later one replacing an earlier.\<close>

definition styleMap :: "string \<rightharpoonup> Style" where
  "styleMap = fold (\<lambda>style m. m(Name style \<mapsto> style)) styles Map.empty"

definition getStyle :: "string \<Rightarrow> string" where
  "getStyle name =
     (case styleMap name of
        Some style \<Rightarrow> ESC # ''['' @ Code style @ ''m''
      | None \<Rightarrow> ESC # ''[37m'')"

section \<open>The tag parser\<close>

definition applyStyling :: "string \<Rightarrow> string list \<Rightarrow> string" where
  "applyStyling str stack = ESC # ''['' @ Join stack '';'' @ ''m'' @ str"

text \<open>The body of the loop over the tokens of one header.\<close>

definition applyTag :: "(string \<Rightarrow> string) \<Rightarrow> string list \<Rightarrow> string \<Rightarrow> panic + string list" where
  "applyTag ulower stack tag0 =
     (let tag = ToLower ulower (Trim tag0 ''[]'') in
      if HasPrefix tag ''/'' then
        (if length stack > 0 then sliceTo stack (int (length stack) - 1) else Inr stack)
      else (case styleMap tag of
              Some style \<Rightarrow> Inr (stack @ [Code style])
            | None \<Rightarrow> Inr stack))"

fun applyTags :: "(string \<Rightarrow> string) \<Rightarrow> string list \<Rightarrow> string list \<Rightarrow> panic + string list" where
  "applyTags ulower stack [] = Inr stack"
| "applyTags ulower stack (tag # tags) =
     (case applyTag ulower stack tag of
        Inl e \<Rightarrow> Inl e
      | Inr stack' \<Rightarrow> applyTags ulower stack' tags)"

text \<open>
  The loop over the segments after the first, with the stack as it stands; the result is
  the list of segments as the loop leaves them.  A segment without \<open>]\<close> is skipped by
  \<open>continue\<close>, which leaves it in the slice as it is.
\<close>

fun parseSegments :: "(string \<Rightarrow> string) \<Rightarrow> string list \<Rightarrow> string list \<Rightarrow> panic + string list" where
  "parseSegments ulower stack [] = Inr []"
| "parseSegments ulower stack (segment # segments) =
     (case SplitN2 segment (CHR '']'') of
        [tags, rest] \<Rightarrow>
          (case applyTags ulower stack (Fields tags) of
             Inl e \<Rightarrow> Inl e
           | Inr stack' \<Rightarrow>
               (case parseSegments ulower stack' segments of
                  Inl e \<Rightarrow> Inl e
                | Inr out \<Rightarrow> Inr (applyStyling rest stack' # out)))
      | _ \<Rightarrow>
          (case parseSegments ulower stack segments of
             Inl e \<Rightarrow> Inl e
           | Inr out \<Rightarrow> Inr (segment # out)))"

definition parseTags :: "(string \<Rightarrow> string) \<Rightarrow> string \<Rightarrow> panic + string" where
  "parseTags ulower str =
     (case Split str (CHR ''['') of
        [] \<Rightarrow> Inr []
      | first # segments \<Rightarrow>
          (case parseSegments ulower [] segments of
             Inl e \<Rightarrow> Inl e
           | Inr out \<Rightarrow> Inr (Join (first # out) [])))"

section \<open>The keyword highlighter\<close>

text \<open>
  Each pass compiles the pattern \<open>(?i)(\bKEYWORD\b)\<close> and replaces every match, leftmost
  first and without overlap.  The pattern is a literal between two ASCII word boundaries,
  so the matcher is modelled for literals: \<open>\b\<close> holds between a word byte
  (\<open>0-9A-Za-z_\<close>) and anything else, and under \<open>(?i)\<close> a letter matches both of its
  cases and its other simple case folding partners, which exist for \<open>s\<close> (U+017F) and
  \<open>k\<close> (U+212A).  The keywords are not empty; the empty literal is not modelled.
\<close>

definition isWordByte :: "char \<Rightarrow> bool" where
  "isWordByte c =
     ((48 \<le> byte c \<and> byte c \<le> 57) \<or> (65 \<le> byte c \<and> byte c \<le> 90)
      \<or> (97 \<le> byte c \<and> byte c \<le> 122) \<or> byte c = 95)"

text \<open>Bytes of \<open>s\<close> that the pattern byte \<open>k\<close> matches at its head, 0 for no match.\<close>

definition foldWidth :: "char \<Rightarrow> string \<Rightarrow> nat" where
  "foldWidth k s =
     (case s of
        [] \<Rightarrow> 0
      | c # _ \<Rightarrow>
          if asciiLower c = asciiLower k then 1
          else if asciiLower k = CHR ''s'' \<and> map byte (take 2 s) = [0xC5, 0xBF] then 2
          else if asciiLower k = CHR ''k'' \<and> map byte (take 3 s) = [0xE2, 0x84, 0xAA] then 3
          else 0)"

fun matchFold :: "string \<Rightarrow> string \<Rightarrow> nat option" where
  "matchFold [] s = Some 0"
| "matchFold (k # ks) s =
     (if foldWidth k s = 0 then None
      else (case matchFold ks (drop (foldWidth k s) s) of
              None \<Rightarrow> None
            | Some n \<Rightarrow> Some (foldWidth k s + n)))"

definition wordBoundary :: "bool \<Rightarrow> string \<Rightarrow> bool" where
  "wordBoundary prevWord s = (prevWord \<noteq> (case s of [] \<Rightarrow> False | c # _ \<Rightarrow> isWordByte c))"

text \<open>
  A match of the keyword at the head of \<open>s\<close>, where \<open>prevWord\<close> says whether the byte
  before \<open>s\<close> is a word byte (\<open>False\<close> at the start of the text): its length in bytes.
\<close>

definition matchAt :: "string \<Rightarrow> bool \<Rightarrow> string \<Rightarrow> nat option" where
  "matchAt keyword prevWord s =
     (case matchFold keyword s of
        None \<Rightarrow> None
      | Some n \<Rightarrow>
          if 0 < n \<and> wordBoundary prevWord s
             \<and> wordBoundary (isWordByte (last (take n s))) (drop n s)
          then Some n else None)"

text \<open>
  The scan of \<open>ReplaceAllStringFunc\<close>: at a match the replacement is written and the
  bytes of the match are passed over (\<open>skip\<close> counts those left).
\<close>

fun replaceScan :: "string \<Rightarrow> (string \<Rightarrow> string) \<Rightarrow> nat \<Rightarrow> bool \<Rightarrow> string \<Rightarrow> string" where
  "replaceScan keyword repl skip prevWord [] = []"
| "replaceScan keyword repl (Suc skip) prevWord (c # cs) =
     replaceScan keyword repl skip (isWordByte c) cs"
| "replaceScan keyword repl 0 prevWord (c # cs) =
     (case matchAt keyword prevWord (c # cs) of
        Some n \<Rightarrow> repl (take n (c # cs)) @ replaceScan keyword repl (n - 1) (isWordByte c) cs
      | None \<Rightarrow> c # replaceScan keyword repl 0 (isWordByte c) cs)"

definition ReplaceAllStringFunc :: "string \<Rightarrow> string \<Rightarrow> (string \<Rightarrow> string) \<Rightarrow> string" where
  "ReplaceAllStringFunc keyword input repl = replaceScan keyword repl 0 False input"

definition keywords_map :: "(string \<times> string) list" where
  "keywords_map =
     [(''success'', getStyle ''green''),
      (''error'', getStyle ''red''),
      (''warning'', getStyle ''yellow''),
      (''info'', getStyle ''cyan'')]"

text \<open>
  The source ranges over a Go map, whose iteration order is not specified.  \<open>order\<close> is
  the list of the entries of \<open>keywords_map\<close> (the map \<open>keywords\<close> of the source) in the
  order one run of the loop visits them.
\<close>

definition colorizeKeywords :: "(string \<times> string) list \<Rightarrow> string \<Rightarrow> string" where
  "colorizeKeywords order input =
     fold (\<lambda>(keyword, colorCode) inp.
             ReplaceAllStringFunc keyword inp (\<lambda>match. colorCode @ match @ ESC # ''[0m''))
          order input"

section \<open>The value formatter\<close>

text \<open>
  A \<open>reflect.Value\<close> as far as the formatter looks at it.  \<open>Zero\<close> is the zero Value
  (kind Invalid).  \<open>NilIface\<close> and \<open>Iface w\<close> are Values of kind Interface, as \<open>Index\<close>
  and \<open>MapIndex\<close> return them for element type \<open>any\<close>: the nil interface, and an
  interface holding the value \<open>w\<close>.  \<open>Num\<close> stands for the integer and floating point
  kinds the source lists, \<open>Text\<close> for kind String and \<open>Other\<close> for every kind the source
  does not list; \<open>Num\<close> and \<open>Other\<close> carry the text that \<open>%v\<close> prints for the value,
  which package fmt decides.  \<open>Text str txt\<close> carries the bytes \<open>str\<close> of the string, which
  \<open>v.String()\<close> returns, and the text \<open>txt\<close> that \<open>%v\<close> prints for it; the two differ
  only for a named string type with a \<open>String\<close> or \<open>Error\<close> method.
  \<open>MapV\<close> lists the keys in the order \<open>MapKeys\<close> returns them, each with what
  \<open>MapIndex\<close> returns for it.  A field of \<open>StructV\<close> is its name, whether it is
  exported, and its value.
\<close>

datatype rvalue =
    Zero
  | NilIface
  | Iface rvalue
  | Num string
  | Boolean bool
  | MapV "(rvalue \<times> rvalue) list"
  | SliceV "rvalue list"
  | StructV "(string \<times> bool \<times> rvalue) list"
  | Text string string
  | Other string

text \<open>
  What \<open>v.Interface()\<close> holds: nothing for a nil interface, otherwise the value with its
  dynamic type (an interface never holds another interface).
\<close>

fun dynamic :: "rvalue \<Rightarrow> rvalue option" where
  "dynamic Zero = None"
| "dynamic NilIface = None"
| "dynamic (Iface w) = dynamic w"
| "dynamic v = Some v"

definition formatString :: "(string \<Rightarrow> string) \<Rightarrow> (string \<times> string) list \<Rightarrow> string \<Rightarrow> panic + string" where
  "formatString ulower order str =
     (case parseTags ulower str of
        Inl e \<Rightarrow> Inl e
      | Inr s \<Rightarrow> Inr (colorizeKeywords order s))"

text \<open>\<open>formatBool\<close> reads the boolean through \<open>reflect.ValueOf(v.Interface())\<close>.\<close>

definition formatBool :: "(string \<Rightarrow> string) \<Rightarrow> bool \<Rightarrow> panic + string" where
  "formatBool ulower b =
     (if b then parseTags ulower ''[green][bold]true[/]''
      else parseTags ulower ''[red][bold]false[/]'')"

text \<open>\<open>formatNumber\<close> takes the text \<open>%v\<close> prints for the number.\<close>

definition formatNumber :: "(string \<Rightarrow> string) \<Rightarrow> string \<Rightarrow> panic + string" where
  "formatNumber ulower txt = parseTags ulower (''[cyan][bold]'' @ txt @ ''[/]'')"

text \<open>
  \<open>formatValue\<close> takes the flag \<open>ro\<close> of the Value (set on a Value reached through an
  unexported field) beside the Value.  \<open>v.Interface()\<close> panics on the zero Value and on
  a Value with the flag; \<open>reflect.TypeOf\<close> of a nil interface is nil, and \<open>Kind\<close> on it
  dereferences nil.  \<open>MapKeys\<close>, \<open>Len\<close> and \<open>NumField\<close> panic on a Value whose own kind
  is not Map, Slice or Struct, as it is for a Value of kind Interface.
\<close>

function (sequential) formatValue :: "(string \<Rightarrow> string) \<Rightarrow> (string \<times> string) list \<Rightarrow> bool \<Rightarrow> rvalue \<Rightarrow> panic + string"
  and formatMap :: "(string \<Rightarrow> string) \<Rightarrow> (string \<times> string) list \<Rightarrow> rvalue \<Rightarrow> panic + string"
  and formatMapEntries :: "(string \<Rightarrow> string) \<Rightarrow> (string \<times> string) list \<Rightarrow> (rvalue \<times> rvalue) list \<Rightarrow> panic + string"
  and formatSlice :: "(string \<Rightarrow> string) \<Rightarrow> (string \<times> string) list \<Rightarrow> rvalue \<Rightarrow> panic + string"
  and formatSliceElems :: "(string \<Rightarrow> string) \<Rightarrow> (string \<times> string) list \<Rightarrow> rvalue list \<Rightarrow> panic + string"
  and formatStruct :: "(string \<Rightarrow> string) \<Rightarrow> (string \<times> string) list \<Rightarrow> rvalue \<Rightarrow> panic + string"
  and formatStructFields :: "(string \<Rightarrow> string) \<Rightarrow> (string \<times> string) list \<Rightarrow> (string \<times> bool \<times> rvalue) list \<Rightarrow> panic + string"
where
  "formatValue ulower order ro v =
     (if v = Zero then Inl ReflectZeroValue
      else if ro then Inl ReflectUnexportedField
      else (case dynamic v of
              None \<Rightarrow> Inl NilPointerDereference
            | Some (Num txt) \<Rightarrow> formatNumber ulower txt
            | Some (MapV _) \<Rightarrow> formatMap ulower order v
            | Some (SliceV _) \<Rightarrow> formatSlice ulower order v
            | Some (StructV _) \<Rightarrow> formatStruct ulower order v
            | Some (Boolean b) \<Rightarrow> formatBool ulower b
            | Some (Text str txt) \<Rightarrow> formatString ulower order txt
            | Some (Other txt) \<Rightarrow> formatString ulower order txt
            | Some _ \<Rightarrow> Inl NilPointerDereference))"
| "formatMap ulower order v =
     (case v of
        MapV entries \<Rightarrow>
          (case formatMapEntries ulower order entries of
             Inl e \<Rightarrow> Inl e
           | Inr body \<Rightarrow> Inr (''{'' @ [NL] @ body @ ''}''))
      | _ \<Rightarrow> Inl ReflectKindMismatch)"
| "formatMapEntries ulower order [] = Inr []"
| "formatMapEntries ulower order ((key, val) # entries) =
     (case formatValue ulower order False key of
        Inl e \<Rightarrow> Inl e
      | Inr left_side \<Rightarrow>
          (case formatValue ulower order False val of
             Inl e \<Rightarrow> Inl e
           | Inr right_side \<Rightarrow>
               (case formatMapEntries ulower order entries of
                  Inl e \<Rightarrow> Inl e
                | Inr body \<Rightarrow>
                    Inr (''  '' @ [DQ] @ left_side @ [DQ] @ '': '' @ right_side @ '','' @ [NL]
                         @ body))))"
| "formatSlice ulower order v =
     (case v of
        SliceV elements \<Rightarrow>
          (case formatSliceElems ulower order elements of
             Inl e \<Rightarrow> Inl e
           | Inr body \<Rightarrow> Inr (''[ '' @ body @ '' ]''))
      | _ \<Rightarrow> Inl ReflectKindMismatch)"
| "formatSliceElems ulower order [] = Inr []"
| "formatSliceElems ulower order (element # elements) =
     (case formatValue ulower order False element of
        Inl e \<Rightarrow> Inl e
      | Inr s \<Rightarrow>
          (case formatSliceElems ulower order elements of
             Inl e \<Rightarrow> Inl e
           | Inr body \<Rightarrow> Inr (s @ (if elements = [] then [] else '', '') @ body)))"
| "formatStruct ulower order v =
     (case v of
        StructV flds \<Rightarrow>
          (case formatStructFields ulower order flds of
             Inl e \<Rightarrow> Inl e
           | Inr body \<Rightarrow> Inr (''{'' @ [NL] @ body @ ''}''))
      | _ \<Rightarrow> Inl ReflectKindMismatch)"
| "formatStructFields ulower order [] = Inr []"
| "formatStructFields ulower order ((name, exported, val) # flds) =
     (case parseTags ulower name of
        Inl e \<Rightarrow> Inl e
      | Inr n \<Rightarrow>
          (case formatValue ulower order (\<not> exported) val of
             Inl e \<Rightarrow> Inl e
           | Inr s \<Rightarrow>
               (case formatStructFields ulower order flds of
                  Inl e \<Rightarrow> Inl e
                | Inr body \<Rightarrow> Inr ('' '' @ n @ '': '' @ s @ [NL] @ body))))"
  by pat_completeness auto

termination
  apply (relation "measure (\<lambda>x. case x of
      Inl (Inl (_, _, _, v)) \<Rightarrow> 2 * size v + 1
    | Inl (Inr (Inl (_, _, v))) \<Rightarrow> 2 * size v
    | Inl (Inr (Inr (_, _, es))) \<Rightarrow> 2 * size_list (size_prod size size) es + 1
    | Inr (Inl (Inl (_, _, v))) \<Rightarrow> 2 * size v
    | Inr (Inl (Inr (_, _, es))) \<Rightarrow> 2 * size_list size es + 1
    | Inr (Inr (Inl (_, _, v))) \<Rightarrow> 2 * size v
    | Inr (Inr (Inr (_, _, fs))) \<Rightarrow>
        2 * size_list (size_prod (\<lambda>_. 0) (size_prod (\<lambda>_. 0) size)) fs + 1)")
  apply simp_all
  done

text \<open>
  \<open>reflect.ValueOf\<close> of an argument of type \<open>any\<close>: the zero Value for nil, otherwise
  the Value of what the interface holds.
\<close>

definition ValueOf :: "rvalue \<Rightarrow> rvalue" where
  "ValueOf arg = (case dynamic arg of None \<Rightarrow> Zero | Some w \<Rightarrow> w)"

text \<open>
  \<open>Print\<close> switches on \<open>v.Kind()\<close>; in the default branch \<open>%v\<close> prints \<open><nil>\<close> for
  nil.  The result is the line written to standard output.
\<close>

fun PrintArgs :: "(string \<Rightarrow> string) \<Rightarrow> (string \<times> string) list \<Rightarrow> rvalue list \<Rightarrow> panic + string list" where
  "PrintArgs ulower order [] = Inr []"
| "PrintArgs ulower order (arg # args) =
     (case (case ValueOf arg of
              Text str txt \<Rightarrow> formatString ulower order str
            | Boolean b \<Rightarrow> formatBool ulower b
            | Num txt \<Rightarrow> formatNumber ulower txt
            | MapV entries \<Rightarrow> formatMap ulower order (MapV entries)
            | SliceV elements \<Rightarrow> formatSlice ulower order (SliceV elements)
            | StructV flds \<Rightarrow> formatStruct ulower order (StructV flds)
            | Other txt \<Rightarrow> parseTags ulower txt
            | _ \<Rightarrow> parseTags ulower ''<nil>'') of
        Inl e \<Rightarrow> Inl e
      | Inr formattedArg \<Rightarrow>
          (case PrintArgs ulower order args of
             Inl e \<Rightarrow> Inl e
           | Inr formattedStrings \<Rightarrow> Inr (formattedArg # formattedStrings)))"

definition Print :: "(string \<Rightarrow> string) \<Rightarrow> (string \<times> string) list \<Rightarrow> rvalue list \<Rightarrow> panic + string" where
  "Print ulower order args =
     (case PrintArgs ulower order args of
        Inl e \<Rightarrow> Inl e
      | Inr formattedStrings \<Rightarrow> Inr (Join formattedStrings '' '' @ [NL]))"

section \<open>Facts about the string functions and the parser loop\<close>

lemma Split_not_Nil: "Split s sep \<noteq> []"
  by (induction s) auto

lemma Split_append: "Split (xs @ sep # ys) sep = Split xs sep @ Split ys sep"
  by (induction xs) (auto simp: Split_not_Nil)

lemma Split_no_sep: "sep \<notin> set s \<Longrightarrow> Split s sep = [s]"
  by (induction s) auto

lemma concat_Split: "concat (Split s sep) = filter (\<lambda>c. c \<noteq> sep) s"
proof (induction s)
  case Nil
  then show ?case by simp
next
  case (Cons c cs)
  have "concat (Split cs sep) = hd (Split cs sep) @ concat (tl (Split cs sep))"
    using Split_not_Nil [of cs sep] by (cases "Split cs sep") auto
  with Cons show ?case by auto
qed

lemma Split_chars: "seg \<in> set (Split s sep) \<Longrightarrow> set seg \<subseteq> set s"
proof (induction s arbitrary: seg)
  case Nil
  then show ?case by simp
next
  case (Cons c cs)
  have ne: "Split cs sep \<noteq> []" by (rule Split_not_Nil)
  show ?case
  proof (cases "c = sep")
    case True
    with Cons show ?thesis by auto
  next
    case False
    with Cons.prems have "seg = c # hd (Split cs sep) \<or> seg \<in> set (tl (Split cs sep))"
      by simp
    then show ?thesis
    proof
      assume "seg = c # hd (Split cs sep)"
      moreover have "set (hd (Split cs sep)) \<subseteq> set cs"
        using Cons.IH [of "hd (Split cs sep)"] ne by simp
      ultimately show ?thesis by auto
    next
      assume "seg \<in> set (tl (Split cs sep))"
      then have "seg \<in> set (Split cs sep)" using ne by (auto dest: list.set_sel(2))
      then show ?thesis using Cons.IH [of seg] by auto
    qed
  qed
qed

lemma Join_empty: "Join xs [] = concat xs"
  by (induction xs "[] :: string" rule: Join.induct) auto

lemma sliceTo_pop: "0 < length stack \<Longrightarrow> sliceTo stack (int (length stack) - 1) = Inr (butlast stack)"
  by (simp add: sliceTo_def butlast_conv_take nat_diff_distrib' flip: of_nat_diff)

lemma applyTag_total: "\<exists>stack'. applyTag ulower stack tag = Inr stack'"
  by (auto simp: applyTag_def Let_def sliceTo_pop split: option.splits)

lemma applyTags_total: "\<exists>stack'. applyTags ulower stack tags = Inr stack'"
proof (induction tags arbitrary: stack)
  case Nil
  then show ?case by simp
next
  case (Cons tag tags)
  obtain s1 where "applyTag ulower stack tag = Inr s1"
    using applyTag_total by blast
  with Cons [of s1] show ?case by simp
qed

lemma SplitN2_none: "sep \<notin> set s \<Longrightarrow> SplitN2 s sep = [s]"
  by (simp add: SplitN2_def)

lemma SplitN2_some:
  "sep \<in> set s \<Longrightarrow> SplitN2 s sep = [takeWhile (\<lambda>c. c \<noteq> sep) s, tl (dropWhile (\<lambda>c. c \<noteq> sep) s)]"
  by (simp add: SplitN2_def)

lemma SplitN2_header:
  "sep \<notin> set tags \<Longrightarrow> SplitN2 (tags @ sep # rest) sep = [tags, rest]"
  by (induction tags) (auto simp: SplitN2_def)

lemma parseSegments_skip:
  "CHR '']'' \<notin> set segment \<Longrightarrow>
   parseSegments ulower stack (segment # segments) =
     (case parseSegments ulower stack segments of Inl e \<Rightarrow> Inl e | Inr out \<Rightarrow> Inr (segment # out))"
  by (simp add: SplitN2_none)

lemma parseSegments_render:
  "CHR '']'' \<in> set segment \<Longrightarrow>
   parseSegments ulower stack (segment # segments) =
     (case applyTags ulower stack (Fields (takeWhile (\<lambda>c. c \<noteq> CHR '']'') segment)) of
        Inl e \<Rightarrow> Inl e
      | Inr stack' \<Rightarrow>
          (case parseSegments ulower stack' segments of
             Inl e \<Rightarrow> Inl e
           | Inr out \<Rightarrow>
               Inr (applyStyling (tl (dropWhile (\<lambda>c. c \<noteq> CHR '']'') segment)) stack' # out)))"
  by (simp add: SplitN2_some)

lemma parseSegments_append:
  "\<exists>stack' o1. parseSegments ulower stack xs = Inr o1 \<and>
     (\<forall>ys. parseSegments ulower stack (xs @ ys) =
        (case parseSegments ulower stack' ys of Inl e \<Rightarrow> Inl e | Inr o2 \<Rightarrow> Inr (o1 @ o2)))"
proof (induction xs arbitrary: stack)
  case Nil
  show ?case by (rule exI [of _ stack]) (auto split: sum.splits)
next
  case (Cons x xs)
  show ?case
  proof (cases "CHR '']'' \<in> set x")
    case False
    obtain st o1 where h: "parseSegments ulower stack xs = Inr o1"
      "\<And>ys. parseSegments ulower stack (xs @ ys) =
        (case parseSegments ulower st ys of Inl e \<Rightarrow> Inl e | Inr o2 \<Rightarrow> Inr (o1 @ o2))"
      using Cons [of stack] by blast
    show ?thesis
      apply (rule exI [of _ st], rule exI [of _ "x # o1"])
      using False h by (auto simp: parseSegments_skip simp del: parseSegments.simps split: sum.splits)
  next
    case True
    obtain s1 where s1: "applyTags ulower stack (Fields (takeWhile (\<lambda>c. c \<noteq> CHR '']'') x)) = Inr s1"
      using applyTags_total by blast
    obtain st o1 where h: "parseSegments ulower s1 xs = Inr o1"
      "\<And>ys. parseSegments ulower s1 (xs @ ys) =
        (case parseSegments ulower st ys of Inl e \<Rightarrow> Inl e | Inr o2 \<Rightarrow> Inr (o1 @ o2))"
      using Cons [of s1] by blast
    show ?thesis
      apply (rule exI [of _ st])
      apply (rule exI [of _ "applyStyling (tl (dropWhile (\<lambda>c. c \<noteq> CHR '']'') x)) s1 # o1"])
      using True s1 h by (auto simp: parseSegments_render simp del: parseSegments.simps split: sum.splits)
  qed
qed

lemma parseSegments_total: "\<exists>out. parseSegments ulower stack segments = Inr out"
  using parseSegments_append [of ulower stack segments] by blast

lemma parseSegments_plain:
  "list_all (\<lambda>seg. CHR '']'' \<notin> set seg) segments \<Longrightarrow> parseSegments ulower stack segments = Inr segments"
  by (induction segments) (simp_all add: parseSegments_skip del: parseSegments.simps(2))

lemma parseTags_total: "\<exists>out. parseTags ulower str = Inr out"
proof -
  obtain first segments where s: "Split str (CHR ''['') = first # segments"
    using Split_not_Nil [of str "CHR ''[''"] by (cases "Split str (CHR ''['')") auto
  obtain out where "parseSegments ulower [] segments = Inr out"
    using parseSegments_total by blast
  with s show ?thesis by (simp add: parseTags_def)
qed


lemma parseTags_unfold:
  "Split str (CHR ''['') = first # segments \<Longrightarrow> parseSegments ulower [] segments = Inr out \<Longrightarrow>
   parseTags ulower str = Inr (first @ concat out)"
  by (simp add: parseTags_def Join_empty)

section \<open>Re-parsing parser output (C3)\<close>

text \<open>
  Claim C3 says that a string the tag parser has produced, which holds escape sequences
  such as \<open>ESC[31m\<close> and no header closed by \<open>]\<close>, passes through \<open>parseTags\<close> again
  intact.  The escape introducer itself holds a \<open>[\<close>, and \<open>Split\<close> cuts at every
  \<open>[\<close>.  What holds instead: on a string without \<open>]\<close> the parser pushes no style and
  writes no prefix, and it returns the string with every \<open>[\<close> removed.
\<close>

theorem parseTags_plain_strips_brackets:
  "CHR '']'' \<notin> set s \<Longrightarrow> parseTags ulower s = Inr (filter (\<lambda>c. c \<noteq> CHR ''['') s)"
proof -
  assume no: "CHR '']'' \<notin> set s"
  obtain first segments where sp: "Split s (CHR ''['') = first # segments"
    using Split_not_Nil [of s "CHR ''[''"] by (cases "Split s (CHR ''['')") auto
  have "list_all (\<lambda>seg. CHR '']'' \<notin> set seg) segments"
    unfolding list_all_iff
  proof
    fix seg assume "seg \<in> set segments"
    then have "seg \<in> set (Split s (CHR ''[''))" by (simp add: sp)
    then show "CHR '']'' \<notin> set seg" using Split_chars no by blast
  qed
  then have "parseSegments ulower [] segments = Inr segments"
    by (rule parseSegments_plain)
  then have "parseTags ulower s = Inr (first @ concat segments)"
    using sp by (rule parseTags_unfold [rotated])
  moreover have "first @ concat segments = concat (Split s (CHR ''[''))"
    by (simp add: sp)
  ultimately show ?thesis by (simp add: concat_Split)
qed

theorem parseTags_plain_strips_brackets_witness:
  "CHR '']'' \<notin> set (ESC # ''[31mx'') \<and> parseTags id (ESC # ''[31mx'') = Inr (ESC # ''31mx'')"
  using parseTags_plain_strips_brackets [of "ESC # ''[31mx''" id] by simp

text \<open>
  The claim as stated fails on the output of \<open>parseTags\<close> for \<open>[red]x\<close>: parsed again,
  the escape sequence loses its \<open>[\<close>.
\<close>

theorem reparse_alters_output:
  "parseTags id ''[red]x'' = Inr (ESC # ''[31mx'') \<and>
   parseTags id (ESC # ''[31mx'') \<noteq> Inr (ESC # ''[31mx'')"
  by (simp add: parseTags_def SplitN2_def Fields_def spaceWidth_def byte_def applyTag_def
      ToLower_def isASCII_def asciiLower_def Trim_def HasPrefix_def styleMap_def styles_def
      sliceTo_def applyStyling_def)

section \<open>A segment without a closing bracket (C1)\<close>

text \<open>
  Claim C1 says that a segment introduced by \<open>[\<close> that holds no \<open>]\<close> is dropped from
  the output.  The loop leaves such a segment by \<open>continue\<close> before it assigns to
  \<open>segments[i]\<close>, so the segment stays in the slice and \<open>Join\<close> writes it out.  What
  holds instead: the text of the segment appears unchanged, without its \<open>[\<close> and without
  an escape prefix, between the output for what precedes it and the output for what
  follows it, and those two are what they are without the segment.
\<close>

theorem unclosed_segment_kept:
  assumes "CHR ''['' \<notin> set seg" and "CHR '']'' \<notin> set seg"
    and "post = [] \<or> hd post = CHR ''[''"
  shows "\<exists>o1 o2. parseTags ulower pre = Inr o1 \<and> parseTags ulower (pre @ post) = Inr (o1 @ o2)
           \<and> parseTags ulower (pre @ ''['' @ seg @ post) = Inr (o1 @ seg @ o2)"
proof -
  obtain first xs where sp: "Split pre (CHR ''['') = first # xs"
    using Split_not_Nil [of pre "CHR ''[''"] by (cases "Split pre (CHR ''['')") auto
  obtain st o1 where o1: "parseSegments ulower [] xs = Inr o1"
    and app: "\<And>ys. parseSegments ulower [] (xs @ ys) =
        (case parseSegments ulower st ys of Inl e \<Rightarrow> Inl e | Inr o2 \<Rightarrow> Inr (o1 @ o2))"
    using parseSegments_append [of ulower "[]" xs] by blast
  have pre: "parseTags ulower pre = Inr (first @ concat o1)"
    using sp o1 by (rule parseTags_unfold)
  show ?thesis
  proof (cases post)
    case Nil
    have "Split (pre @ ''['' @ seg) (CHR ''['') = first # xs @ [seg]"
      using assms(1) by (simp add: Split_append Split_no_sep sp)
    moreover have "parseSegments ulower [] (xs @ [seg]) = Inr (o1 @ [seg])"
      using assms(2) by (simp add: app SplitN2_none)
    ultimately have "parseTags ulower (pre @ ''['' @ seg) = Inr (first @ concat (o1 @ [seg]))"
      by (rule parseTags_unfold)
    with pre Nil show ?thesis by simp
  next
    case (Cons c post')
    with assms(3) have post: "post = CHR ''['' # post'" by simp
    obtain o2 where o2: "parseSegments ulower st (Split post' (CHR ''[''))  = Inr o2"
      using parseSegments_total by blast
    have "Split (pre @ post) (CHR ''['') = first # xs @ Split post' (CHR ''['')"
      by (simp add: post Split_append sp)
    moreover have "parseSegments ulower [] (xs @ Split post' (CHR ''['')) = Inr (o1 @ o2)"
      by (simp add: app o2)
    ultimately have a: "parseTags ulower (pre @ post) = Inr (first @ concat (o1 @ o2))"
      by (rule parseTags_unfold)
    have "pre @ ''['' @ seg @ post = (pre @ CHR ''['' # seg) @ CHR ''['' # post'"
      by (simp add: post)
    then have "Split (pre @ ''['' @ seg @ post) (CHR ''['')
        = first # xs @ seg # Split post' (CHR ''['')"
      using assms(1) by (simp only: Split_append) (simp add: Split_no_sep sp)
    moreover have "parseSegments ulower [] (xs @ seg # Split post' (CHR ''['')) = Inr (o1 @ seg # o2)"
      using assms(2) by (simp add: app o2 parseSegments_skip del: parseSegments.simps(2))
    ultimately have "parseTags ulower (pre @ ''['' @ seg @ post) = Inr (first @ concat (o1 @ seg # o2))"
      by (rule parseTags_unfold)
    with pre a show ?thesis by simp
  qed
qed

theorem unclosed_segment_kept_witness:
  "CHR ''['' \<notin> set ''bc'' \<and> CHR '']'' \<notin> set ''bc'' \<and> hd ''[red]d'' = CHR ''[''
   \<and> parseTags id ''a[bc[red]d'' = Inr (''abc'' @ ESC # ''[31md'')"
proof -
  obtain o1 o2 where "parseTags id ''a'' = Inr o1"
    and "parseTags id (''a'' @ ''[red]d'') = Inr (o1 @ o2)"
    and r: "parseTags id (''a'' @ ''['' @ ''bc'' @ ''[red]d'') = Inr (o1 @ ''bc'' @ o2)"
    using unclosed_segment_kept [of "''bc''" "''[red]d''" id "''a''"] by auto
  moreover have "parseTags id ''a'' = Inr ''a''"
    by (simp add: parseTags_def)
  moreover have "parseTags id (''a'' @ ''[red]d'') = Inr (''a'' @ ESC # ''[31md'')"
    by (simp add: parseTags_def SplitN2_def Fields_def spaceWidth_def byte_def applyTag_def
      ToLower_def isASCII_def asciiLower_def Trim_def HasPrefix_def styleMap_def styles_def
      applyStyling_def)
  ultimately have "o1 = ''a''" and "o2 = ESC # ''[31md''" by auto
  with r show ?thesis by simp
qed

text \<open>
  The claim as stated fails on \<open>a[bc\<close>: the output is \<open>abc\<close>, not the output for
  \<open>a\<close>.
\<close>

theorem unclosed_segment_not_dropped:
  "parseTags id ''a[bc'' = Inr ''abc'' \<and> parseTags id ''a[bc'' \<noteq> parseTags id ''a''"
  by (simp add: parseTags_def SplitN2_def)


section \<open>Evaluating the parser on literal strings\<close>

lemmas eval_defs = parseTags_def SplitN2_def Fields_def spaceWidth_def byte_def applyTag_def
      ToLower_def isASCII_def asciiLower_def Trim_def HasPrefix_def styleMap_def styles_def
      sliceTo_def applyStyling_def char_of_def bit_0

section \<open>Nesting (C4)\<close>

text \<open>
  Claim C4: for every segment with a header, the text after the header is written behind
  \<open>ESC[\<close>, the codes of the whole stack as the header leaves it joined by \<open>;\<close>, and
  \<open>m\<close>.  On \<open>[b][red]x[/][/]y\<close> the run \<open>x\<close> gets \<open>ESC[1;31m\<close> and the run \<open>y\<close>,
  after two pops, \<open>ESC[m\<close>.
\<close>

theorem nested_tags_join_stack:
  "(CHR '']'' \<in> set segment \<longrightarrow>
      (\<exists>stack'. applyTags ulower stack (Fields (takeWhile (\<lambda>c. c \<noteq> CHR '']'') segment)) = Inr stack'
         \<and> parseSegments ulower stack [segment] =
             Inr [ESC # ''['' @ Join stack' '';'' @ ''m'' @ tl (dropWhile (\<lambda>c. c \<noteq> CHR '']'') segment)]))
   \<and> parseTags ulower ''[b][red]x[/][/]y'' =
       Inr (ESC # ''[1m'' @ ESC # ''[1;31mx'' @ ESC # ''[1m'' @ ESC # ''[my'')"
proof (intro conjI impI)
  assume h: "CHR '']'' \<in> set segment"
  obtain s1 where s1: "applyTags ulower stack (Fields (takeWhile (\<lambda>c. c \<noteq> CHR '']'') segment)) = Inr s1"
    using applyTags_total by blast
  have "parseSegments ulower stack [segment] =
      Inr [ESC # ''['' @ Join s1 '';'' @ ''m'' @ tl (dropWhile (\<lambda>c. c \<noteq> CHR '']'') segment)]"
    using h s1 by (simp add: parseSegments_render applyStyling_def del: parseSegments.simps(2))
  with s1 show "\<exists>stack'. applyTags ulower stack (Fields (takeWhile (\<lambda>c. c \<noteq> CHR '']'') segment)) = Inr stack'
         \<and> parseSegments ulower stack [segment] =
             Inr [ESC # ''['' @ Join stack' '';'' @ ''m'' @ tl (dropWhile (\<lambda>c. c \<noteq> CHR '']'') segment)]"
    by blast
next
  show "parseTags ulower ''[b][red]x[/][/]y'' =
       Inr (ESC # ''[1m'' @ ESC # ''[1;31mx'' @ ESC # ''[1m'' @ ESC # ''[my'')"
    by (simp add: eval_defs)
qed

theorem nested_tags_join_stack_witness:
  "CHR '']'' \<in> set ''b red]x'' \<and> applyTags id [''4''] (Fields ''b red'') = Inr [''4'', ''1'', ''31'']
   \<and> parseSegments id [''4''] [''b red]x''] = Inr [ESC # ''[4;1;31mx'']"
  using nested_tags_join_stack [of "''b red]x''" id "[''4'']"]
  by (simp add: eval_defs)

section \<open>Closing with an empty stack (C5)\<close>

text \<open>
  Claim C5: \<open>parseTags\<close> returns a string on every input, no token makes the slice
  expression of the pop panic, a close token on the empty stack leaves it empty, and
  \<open>[/]text\<close> is rendered as \<open>text\<close> behind the prefix of the empty stack.
\<close>

theorem close_on_empty_stack_is_noop:
  "(\<exists>out. parseTags ulower str = Inr out)
   \<and> (\<exists>stack'. applyTag ulower stack tag = Inr stack' \<and> length stack' \<le> Suc (length stack))
   \<and> (HasPrefix (ToLower ulower (Trim tag ''[]'')) ''/'' \<longrightarrow> applyTag ulower [] tag = Inr [])
   \<and> parseTags ulower ''[/]text'' = Inr (ESC # ''[mtext'')"
proof (intro conjI impI)
  show "\<exists>out. parseTags ulower str = Inr out" by (rule parseTags_total)
  show "\<exists>stack'. applyTag ulower stack tag = Inr stack' \<and> length stack' \<le> Suc (length stack)"
    by (auto simp: applyTag_def Let_def sliceTo_pop split: option.splits)
  show "applyTag ulower [] tag = Inr []" if "HasPrefix (ToLower ulower (Trim tag ''[]'')) ''/''"
    using that by (simp add: applyTag_def)
  show "parseTags ulower ''[/]text'' = Inr (ESC # ''[mtext'')"
    by (simp add: eval_defs)
qed

theorem close_on_empty_stack_is_noop_witness:
  "HasPrefix (ToLower id (Trim ''/RED'' ''[]'')) ''/'' \<and> applyTag id [] ''/RED'' = Inr []
   \<and> parseTags id ''[/red][/]'' = Inr (ESC # ''[m'' @ ESC # ''[m'')"
  using close_on_empty_stack_is_noop [of id "''[/red][/]''" "[]" "''/RED''"]
  by (simp add: eval_defs)

section \<open>Unknown tokens (C6)\<close>

text \<open>
  Claim C6: a token that, trimmed and lowered as the loop does it, neither begins with
  \<open>/\<close> nor is a key of the registry leaves the stack as it is without a panic, so the
  tokens after it act as if it were absent; a segment whose header is that token alone
  comes out as the prefix of the unchanged stack and the text after the header, with
  nothing of the token in it, and \<open>[nonexistent]text\<close> is rendered as \<open>text\<close> behind the
  prefix of the empty stack.
\<close>

theorem unknown_token_ignored:
  assumes "\<not> HasPrefix (ToLower ulower (Trim tag ''[]'')) ''/''"
    and "styleMap (ToLower ulower (Trim tag ''[]'')) = None"
  shows "applyTag ulower stack tag = Inr stack
     \<and> applyTags ulower stack (tag # tags) = applyTags ulower stack tags
     \<and> (CHR '']'' \<notin> set header \<and> Fields header = [tag] \<longrightarrow>
          parseSegments ulower stack [header @ '']'' @ rest] = Inr [applyStyling rest stack])
     \<and> parseTags ulower ''[nonexistent]text'' = Inr (ESC # ''[mtext'')"
proof -
  have a: "applyTag ulower stack tag = Inr stack"
    using assms by (simp add: applyTag_def)
  moreover have "parseTags ulower ''[nonexistent]text'' = Inr (ESC # ''[mtext'')"
    by (simp add: eval_defs)
  moreover have "parseSegments ulower stack [header @ '']'' @ rest] = Inr [applyStyling rest stack]"
    if "CHR '']'' \<notin> set header" and "Fields header = [tag]"
    using that a by (simp add: SplitN2_header)
  ultimately show ?thesis by simp
qed

theorem unknown_token_ignored_witness:
  "\<not> HasPrefix (ToLower id (Trim ''Bold'' ''[]'')) ''/'' \<and> styleMap (ToLower id (Trim ''Bold'' ''[]'')) = None
   \<and> CHR '']'' \<notin> set ''Bold'' \<and> Fields ''Bold'' = [''Bold'']
   \<and> applyTag id [''36''] ''Bold'' = Inr [''36'']
   \<and> applyTags id [''36''] [''Bold'', ''u''] = Inr [''36'', ''4'']
   \<and> parseSegments id [''36''] [''Bold]42''] = Inr [ESC # ''[36m42'']"
  using unknown_token_ignored [of id "''Bold''" "[''36'']" "[''u'']" "''Bold''" "''42''"]
  by (simp add: eval_defs)

section \<open>Style lookup and letter case (C2)\<close>

lemma styleMap_Some:
  "style \<in> set styles \<Longrightarrow> styleMap (Name style) = Some style"
  unfolding styles_def styleMap_def by (elim set_ConsD [elim_format] disjE) simp_all

lemma fold_upd_dom:
  "fold (\<lambda>style m. m(Name style \<mapsto> style)) xs m0 v = Some st \<Longrightarrow>
   v \<in> Name ` set xs \<or> m0 v = Some st"
  by (induction xs arbitrary: m0) (fastforce split: if_splits)+

lemma styles_lower: "list_all (\<lambda>style. ToLower ulower (Name style) = Name style) styles"
  by (simp add: styles_def ToLower_def isASCII_def asciiLower_def byte_def)

lemma styleMap_dom_lower:
  "styleMap v = Some style \<Longrightarrow> ToLower ulower v = v"
proof -
  assume "styleMap v = Some style"
  then have "v \<in> Name ` set styles"
    unfolding styleMap_def by (auto dest: fold_upd_dom)
  then show ?thesis using styles_lower [of ulower] by (auto simp: list_all_iff)
qed

text \<open>
  Claim C2 says that \<open>getStyle\<close> returns for every letter-case variant of a registered
  name what it returns for the name.  \<open>getStyle\<close> looks its argument up as it is.  What
  holds instead: for a registered name \<open>getStyle\<close> returns \<open>ESC[\<close>, the code and \<open>m\<close>, and
  for every other string that lowers to the name it returns the fallback \<open>ESC[37m\<close>.
\<close>

theorem getStyle_exact_match:
  assumes "style \<in> set styles" and "ToLower ulower v = Name style" and "v \<noteq> Name style"
  shows "getStyle (Name style) = ESC # ''['' @ Code style @ ''m'' \<and> getStyle v = ESC # ''[37m''"
proof -
  have "styleMap v = None"
  proof (cases "styleMap v")
    case (Some st)
    then have "ToLower ulower v = v" by (rule styleMap_dom_lower)
    with assms show ?thesis by simp
  qed simp
  then show ?thesis using styleMap_Some [OF assms(1)] by (simp add: getStyle_def)
qed

theorem getStyle_exact_match_witness:
  "\<lparr>Name = ''red'', Code = ''31'', IsColor = True\<rparr> \<in> set styles \<and> ToLower id ''Red'' = ''red''
   \<and> getStyle ''red'' = ESC # ''[31m'' \<and> getStyle ''Red'' = ESC # ''[37m''"
  using getStyle_exact_match [of "\<lparr>Name = ''red'', Code = ''31'', IsColor = True\<rparr>" id "''Red''"]
  by (simp add: getStyle_def styleMap_def styles_def ToLower_def isASCII_def asciiLower_def byte_def char_of_def bit_0)

text \<open>The claim as stated fails on \<open>RED\<close>.\<close>

theorem getStyle_case_sensitive:
  "ToLower id ''RED'' = ''red'' \<and> getStyle ''RED'' \<noteq> getStyle ''red''"
  by (simp add: getStyle_def styleMap_def styles_def ToLower_def isASCII_def asciiLower_def byte_def char_of_def bit_0)

section \<open>Keyword highlighting (C7)\<close>

lemmas hl_defs = ReplaceAllStringFunc_def matchAt_def foldWidth_def wordBoundary_def
  isWordByte_def asciiLower_def byte_def getStyle_def styleMap_def styles_def char_of_def bit_0

lemma pass_success_0:
  "ReplaceAllStringFunc ''success'' ''Operation success'' repl = ''Operation '' @ repl ''success''"
  by (simp add: hl_defs)

lemma pass_success_upper:
  "ReplaceAllStringFunc ''success'' ''Operation SUCCESS'' repl = ''Operation '' @ repl ''SUCCESS''"
  by (simp add: hl_defs)

lemma pass_other_upper_0:
  "kw \<in> {''error'', ''warning'', ''info''} \<Longrightarrow>
   ReplaceAllStringFunc kw ''Operation SUCCESS'' repl = ''Operation SUCCESS''"
  by (auto simp: hl_defs)

lemma pass_other_upper_1:
  "kw \<in> {''error'', ''warning'', ''info''} \<Longrightarrow>
   ReplaceAllStringFunc kw (''Operation '' @ ESC # ''[32mSUCCESS'' @ ESC # ''[0m'') repl
     = ''Operation '' @ ESC # ''[32mSUCCESS'' @ ESC # ''[0m''"
  by (auto simp: hl_defs)

lemma pass_other_0:
  "kw \<in> {''error'', ''warning'', ''info''} \<Longrightarrow>
   ReplaceAllStringFunc kw ''Operation success'' repl = ''Operation success''"
  by (auto simp: hl_defs)

lemma pass_other_1:
  "kw \<in> {''error'', ''warning'', ''info''} \<Longrightarrow>
   ReplaceAllStringFunc kw (''Operation '' @ ESC # ''[32msuccess'' @ ESC # ''[0m'') repl
     = ''Operation '' @ ESC # ''[32msuccess'' @ ESC # ''[0m''"
  by (auto simp: hl_defs)

lemma pass_any_2:
  "kw \<in> {''success'', ''error'', ''warning'', ''info''} \<Longrightarrow>
   ReplaceAllStringFunc kw ''successful'' repl = ''successful''"
  by (auto simp: hl_defs)

lemma fold_fixed: "list_all (\<lambda>e. f e x = x) xs \<Longrightarrow> fold f xs x = x"
  by (induction xs) auto

lemma fold_single_change:
  assumes "distinct order" and "S \<in> set order" and "f S s0 = s1"
    and "\<And>e. e \<in> set order \<Longrightarrow> e \<noteq> S \<Longrightarrow> f e s0 = s0 \<and> f e s1 = s1"
  shows "fold f order s0 = s1"
proof -
  obtain xs ys where o: "order = xs @ S # ys"
    using assms(2) by (auto dest: split_list)
  with assms(1) have "S \<notin> set xs" "S \<notin> set ys" by auto
  then have "list_all (\<lambda>e. f e s0 = s0) xs" "list_all (\<lambda>e. f e s1 = s1) ys"
    using assms(4) o by (auto simp: list_all_iff)
  then have "fold f xs s0 = s0" "fold f ys s1 = s1"
    by (auto intro: fold_fixed)
  with assms(3) o show ?thesis by simp
qed

lemma keywords_map_eval:
  "keywords_map = [(''success'', ESC # ''[32m''), (''error'', ESC # ''[31m''),
     (''warning'', ESC # ''[33m''), (''info'', ESC # ''[36m'')]"
  by (simp add: keywords_map_def getStyle_def styleMap_def styles_def)

lemma colorize_success:
  assumes "distinct order" and "set order = set keywords_map"
  shows "colorizeKeywords order ''Operation success'' = ''Operation '' @ ESC # ''[32msuccess'' @ ESC # ''[0m''"
  unfolding colorizeKeywords_def
proof (rule fold_single_change [where S = "(''success'', ESC # ''[32m'')"])
  have so: "set order = {(''success'', ESC # ''[32m''), (''error'', ESC # ''[31m''),
     (''warning'', ESC # ''[33m''), (''info'', ESC # ''[36m'')}"
    unfolding assms(2) keywords_map_eval by simp
  show "distinct order" by fact
  show "(''success'', ESC # ''[32m'') \<in> set order"
    unfolding so by simp
  show "(case (''success'', ESC # ''[32m'') of
          (keyword, colorCode) \<Rightarrow> \<lambda>inp. ReplaceAllStringFunc keyword inp (\<lambda>match. colorCode @ match @ ESC # ''[0m''))
         ''Operation success'' = ''Operation '' @ ESC # ''[32msuccess'' @ ESC # ''[0m''"
    by (simp add: pass_success_0)
  fix e assume "e \<in> set order" and ne: "e \<noteq> (''success'', ESC # ''[32m'')"
  then have "e \<in> {(''success'', ESC # ''[32m''), (''error'', ESC # ''[31m''),
     (''warning'', ESC # ''[33m''), (''info'', ESC # ''[36m'')}"
    unfolding so by simp
  with ne consider "e = (''error'', ESC # ''[31m'')" | "e = (''warning'', ESC # ''[33m'')"
    | "e = (''info'', ESC # ''[36m'')"
    by blast
  then show "(case e of (keyword, colorCode) \<Rightarrow> \<lambda>inp. ReplaceAllStringFunc keyword inp (\<lambda>match. colorCode @ match @ ESC # ''[0m''))
         ''Operation success'' = ''Operation success'' \<and>
        (case e of (keyword, colorCode) \<Rightarrow> \<lambda>inp. ReplaceAllStringFunc keyword inp (\<lambda>match. colorCode @ match @ ESC # ''[0m''))
         (''Operation '' @ ESC # ''[32msuccess'' @ ESC # ''[0m'') = ''Operation '' @ ESC # ''[32msuccess'' @ ESC # ''[0m''"
  proof cases
    case 1
    show ?thesis
      unfolding 1 using pass_other_0 [of "''error''"] pass_other_1 [of "''error''"] by simp
  next
    case 2
    show ?thesis
      unfolding 2 using pass_other_0 [of "''warning''"] pass_other_1 [of "''warning''"] by simp
  next
    case 3
    show ?thesis
      unfolding 3 using pass_other_0 [of "''info''"] pass_other_1 [of "''info''"] by simp
  qed
qed

lemma colorize_success_upper:
  assumes "distinct order" and "set order = set keywords_map"
  shows "colorizeKeywords order ''Operation SUCCESS'' = ''Operation '' @ ESC # ''[32mSUCCESS'' @ ESC # ''[0m''"
  unfolding colorizeKeywords_def
proof (rule fold_single_change [where S = "(''success'', ESC # ''[32m'')"])
  have so: "set order = {(''success'', ESC # ''[32m''), (''error'', ESC # ''[31m''),
     (''warning'', ESC # ''[33m''), (''info'', ESC # ''[36m'')}"
    unfolding assms(2) keywords_map_eval by simp
  show "distinct order" by fact
  show "(''success'', ESC # ''[32m'') \<in> set order"
    unfolding so by simp
  show "(case (''success'', ESC # ''[32m'') of
          (keyword, colorCode) \<Rightarrow> \<lambda>inp. ReplaceAllStringFunc keyword inp (\<lambda>match. colorCode @ match @ ESC # ''[0m''))
         ''Operation SUCCESS'' = ''Operation '' @ ESC # ''[32mSUCCESS'' @ ESC # ''[0m''"
    by (simp add: pass_success_upper)
  fix e assume "e \<in> set order" and ne: "e \<noteq> (''success'', ESC # ''[32m'')"
  then have "e \<in> {(''success'', ESC # ''[32m''), (''error'', ESC # ''[31m''),
     (''warning'', ESC # ''[33m''), (''info'', ESC # ''[36m'')}"
    unfolding so by simp
  with ne consider "e = (''error'', ESC # ''[31m'')" | "e = (''warning'', ESC # ''[33m'')"
    | "e = (''info'', ESC # ''[36m'')"
    by blast
  then show "(case e of (keyword, colorCode) \<Rightarrow> \<lambda>inp. ReplaceAllStringFunc keyword inp (\<lambda>match. colorCode @ match @ ESC # ''[0m''))
         ''Operation SUCCESS'' = ''Operation SUCCESS'' \<and>
        (case e of (keyword, colorCode) \<Rightarrow> \<lambda>inp. ReplaceAllStringFunc keyword inp (\<lambda>match. colorCode @ match @ ESC # ''[0m''))
         (''Operation '' @ ESC # ''[32mSUCCESS'' @ ESC # ''[0m'') = ''Operation '' @ ESC # ''[32mSUCCESS'' @ ESC # ''[0m''"
  proof cases
    case 1
    show ?thesis
      unfolding 1 using pass_other_upper_0 [of "''error''"] pass_other_upper_1 [of "''error''"] by simp
  next
    case 2
    show ?thesis
      unfolding 2 using pass_other_upper_0 [of "''warning''"] pass_other_upper_1 [of "''warning''"] by simp
  next
    case 3
    show ?thesis
      unfolding 3 using pass_other_upper_0 [of "''info''"] pass_other_upper_1 [of "''info''"] by simp
  qed
qed

lemma colorize_successful:
  assumes "set order = set keywords_map"
  shows "colorizeKeywords order ''successful'' = ''successful''"
  unfolding colorizeKeywords_def
proof (rule fold_fixed, unfold list_all_iff, rule ballI)
  have so: "set order = {(''success'', ESC # ''[32m''), (''error'', ESC # ''[31m''),
     (''warning'', ESC # ''[33m''), (''info'', ESC # ''[36m'')}"
    unfolding assms keywords_map_eval by simp
  fix e assume "e \<in> set order"
  then have "e \<in> {(''success'', ESC # ''[32m''), (''error'', ESC # ''[31m''),
     (''warning'', ESC # ''[33m''), (''info'', ESC # ''[36m'')}"
    unfolding so by simp
  then consider "e = (''success'', ESC # ''[32m'')" | "e = (''error'', ESC # ''[31m'')"
    | "e = (''warning'', ESC # ''[33m'')" | "e = (''info'', ESC # ''[36m'')"
    by blast
  then show "(case e of (keyword, colorCode) \<Rightarrow> \<lambda>inp. ReplaceAllStringFunc keyword inp (\<lambda>match. colorCode @ match @ ESC # ''[0m''))
      ''successful'' = ''successful''"
  proof cases
    case 1
    show ?thesis unfolding 1 using pass_any_2 [of "''success''"] by simp
  next
    case 2
    show ?thesis unfolding 2 using pass_any_2 [of "''error''"] by simp
  next
    case 3
    show ?thesis unfolding 3 using pass_any_2 [of "''warning''"] by simp
  next
    case 4
    show ?thesis unfolding 4 using pass_any_2 [of "''info''"] by simp
  qed
qed

text \<open>
  Claim C7: formatted as a string leaf, \<open>Operation success\<close> comes out with the word
  \<open>success\<close>, in either letter case, between the green escape and the reset escape and
  with \<open>Operation \<close> as it was, and \<open>successful\<close> comes out as it was.  This holds for
  every order in which the loop can visit the four keywords.
\<close>

theorem keyword_highlighting:
  assumes "distinct order" and "set order = set keywords_map"
  shows "formatString ulower order ''Operation success'' =
           Inr (''Operation '' @ ESC # ''[32msuccess'' @ ESC # ''[0m'')
       \<and> formatString ulower order ''Operation SUCCESS'' =
           Inr (''Operation '' @ ESC # ''[32mSUCCESS'' @ ESC # ''[0m'')
       \<and> formatString ulower order ''successful'' = Inr ''successful''"
proof -
  have "parseTags ulower ''Operation success'' = Inr ''Operation success''"
    and "parseTags ulower ''Operation SUCCESS'' = Inr ''Operation SUCCESS''"
    and "parseTags ulower ''successful'' = Inr ''successful''"
    by (simp_all add: parseTags_def)
  then show ?thesis
    using colorize_success [OF assms] colorize_success_upper [OF assms]
      colorize_successful [OF assms(2)]
    by (simp add: formatString_def)
qed

theorem keyword_highlighting_witness:
  "distinct keywords_map \<and> set keywords_map = set keywords_map
   \<and> formatString id keywords_map ''Operation success'' =
           Inr (''Operation '' @ ESC # ''[32msuccess'' @ ESC # ''[0m'')
   \<and> formatString id keywords_map ''successful'' = Inr ''successful''"
proof -
  have d: "distinct keywords_map" unfolding keywords_map_eval by simp
  show ?thesis using d keyword_highlighting [OF d refl, of id] by simp
qed

section \<open>Numbers and booleans on their own\<close>

lemma formatNumber_eval:
  "CHR ''['' \<notin> set txt \<Longrightarrow>
   formatNumber ulower txt = Inr (ESC # ''[36m'' @ ESC # ''[36m'' @ txt @ ESC # ''[m'')"
  by (simp add: formatNumber_def Split_append Split_no_sep eval_defs)

lemma formatBool_eval:
  "formatBool ulower True = Inr (ESC # ''[32m'' @ ESC # ''[32mtrue'' @ ESC # ''[m'')"
  "formatBool ulower False = Inr (ESC # ''[31m'' @ ESC # ''[31mfalse'' @ ESC # ''[m'')"
  by (simp_all add: formatBool_def eval_defs)

section \<open>Formatting a map (C8)\<close>





section \<open>Values the formatter fails on (C9)\<close>

text \<open>
  Claim C9 has two halves.  A nil interface that reaches \<open>formatValue\<close>, as an element of
  a slice or a value of a map does, is fatal: that half holds, while \<open>Print\<close> itself
  prints \<open><nil>\<close> for a nil argument.  The other half, that every concrete value is
  formatted normally, does not hold of the code.  \<open>formatValue\<close> chooses the branch by the
  dynamic type of \<open>v.Interface()\<close> and then hands the Value itself to \<open>formatMap\<close>,
  \<open>formatSlice\<close> or \<open>formatStruct\<close>; for an element of type \<open>any\<close> the Value has kind
  Interface, and \<open>MapKeys\<close>, \<open>Len\<close> and \<open>NumField\<close> panic on it.  \<open>formatBool\<close> goes
  through \<open>reflect.ValueOf(v.Interface())\<close> and is not affected.  A struct with an
  unexported field fails too, in \<open>v.Interface()\<close>.
\<close>

theorem formatValue_panics:
  "formatValue ulower order False NilIface = Inl NilPointerDereference
   \<and> Print ulower order [SliceV [Num ''1'', NilIface]] = Inl NilPointerDereference
   \<and> Print ulower order [NilIface] = Inr (''<nil>'' @ [NL])
   \<and> formatValue ulower order False (Iface (SliceV [Num ''1''])) = Inl ReflectKindMismatch
   \<and> Print ulower order [SliceV [Iface (SliceV [Num ''1''])]] = Inl ReflectKindMismatch
   \<and> Print ulower order [MapV [(Text ''k'' ''k'', Iface (MapV []))]] = Inl ReflectKindMismatch
   \<and> Print ulower order [SliceV [Iface (Boolean True)]] =
        Inr (''[ '' @ ESC # ''[32m'' @ ESC # ''[32mtrue'' @ ESC # ''[m ]'' @ [NL])
   \<and> Print ulower order [StructV [(''a'', False, Num ''1'')]] = Inl ReflectUnexportedField"
  by (simp add: Print_def ValueOf_def formatNumber_eval formatBool_eval formatString_def
      parseTags_def colorizeKeywords_def)

section \<open>The decorative tags of numbers and booleans (C10)\<close>

text \<open>
  Claim C10: \<open>bold\<close> is no key of the registry (\<open>b\<close> is), so the parser passes over it:
  a number, whose text holds no \<open>[\<close>, comes out behind the code 36 alone, \<open>true\<close> behind
  32 and \<open>false\<close> behind 31; the code 1 is in no prefix.
\<close>

theorem decorative_bold_not_registered:
  "styleMap ''bold'' = None
   \<and> applyTag ulower [''36''] ''bold'' = Inr [''36'']
   \<and> (CHR ''['' \<notin> set txt \<longrightarrow>
        formatNumber ulower txt = Inr (ESC # ''[36m'' @ ESC # ''[36m'' @ txt @ ESC # ''[m''))
   \<and> formatBool ulower True = Inr (ESC # ''[32m'' @ ESC # ''[32mtrue'' @ ESC # ''[m'')
   \<and> formatBool ulower False = Inr (ESC # ''[31m'' @ ESC # ''[31mfalse'' @ ESC # ''[m'')"
proof (intro conjI impI)
  show "styleMap ''bold'' = None" by (simp add: styleMap_def styles_def)
  show "applyTag ulower [''36''] ''bold'' = Inr [''36'']" by (simp add: eval_defs)
qed (simp_all add: formatNumber_eval formatBool_eval)

theorem decorative_bold_not_registered_witness:
  "CHR ''['' \<notin> set ''-42.5'' \<and>
   formatNumber id ''-42.5'' = Inr (ESC # ''[36m'' @ ESC # ''[36m-42.5'' @ ESC # ''[m'')"
  using decorative_bold_not_registered [of id "''-42.5''"] by simp

end
